theory Spec2Isabelle
  imports Main "HOL-Library.Word" "HOL-Library.AList" "HOL-Library.Sublist"
begin

section \<open>The file trees\<close>

text \<open>
  The program mirrors a source directory into a replica directory through \<open>os\<close> and
  \<open>shutil\<close> calls on path strings. The model keeps the two trees apart (the replica
  does not lie inside the source, nor the source inside the replica) and
  passes the replica down the recursion as explicit state: every function receives what
  lies at \<open>rep_path\<close> and returns what lies there afterwards.

  A path is the list of its components, so \<open>os.path.join(p, name)\<close> is \<open>p @ [name]\<close>
  (the names come from \<open>os.listdir\<close> and hold no separator). A directory is the list of
  its entries in listing order.

  The source is only read. Besides regular files and directories it may hold entries for
  which both \<open>os.path.isfile\<close> and \<open>os.path.isdir\<close> are false: \<open>SOther True\<close> is one
  that \<open>os.path.exists\<close> finds (a fifo, a socket, a device), \<open>SOther False\<close> one that it
  does not (a dangling symbolic link). The replica holds regular files and directories,
  the only entries the program creates there. A replica entry that is neither (which
  Pass 2 would leave in place, being neither \<open>isfile\<close> nor \<open>isdir\<close>) lies outside the
  model: nothing below says that such an entry is removed. Symbolic links that resolve
  are not modelled.
\<close>

type_synonym name = string
type_synonym path = "name list"
type_synonym bytes = "8 word list"

datatype snode = SFile bytes | SDir "(name \<times> snode) list" | SOther bool

datatype node = File bytes | Dir "(name \<times> node) list"

text \<open>The exceptions that the tree state alone can make the calls raise.\<close>

datatype error = FileNotFoundError | NotADirectoryError | IsADirectoryError | FileExistsError

text \<open>
  What the program does to the outside, in order: the files \<open>calculate_hash\<close> opens and
  reads, the calls that change the replica, and the lines handed to \<open>log\<close>.
\<close>

datatype effect =
    Read path
  | Remove path
  | CreateEmpty path
  | Copy path path
  | Makedirs path
  | Rmtree path
  | Log string path

text \<open>
  Two things are not code of the program: the digest function behind
  \<open>hashlib.md5(...).hexdigest()\<close>, of which only the width (128 bits) is kept, and the size
  that \<open>os.path.getsize\<close> reports for a directory, which depends on the file system.
\<close>

record platform =
  md5 :: "bytes \<Rightarrow> 128 word"
  dir_size :: "(name \<times> node) list \<Rightarrow> nat"

text \<open>
  An outcome is the replica at \<open>rep_path\<close>, the effects so far and the exception raised,
  if any. \<open>seq\<close> is statement sequencing: an exception skips what follows.
\<close>

type_synonym outcome = "node option \<times> effect list \<times> error option"

definition seq :: "outcome \<Rightarrow> (node option \<Rightarrow> outcome) \<Rightarrow> outcome" where
  "seq a f =
     (case a of
        (r1, t1, Some e) \<Rightarrow> (r1, t1, Some e)
      | (r1, t1, None) \<Rightarrow> (case f r1 of (r2, t2, e2) \<Rightarrow> (r2, t1 @ t2, e2)))"

definition is_log :: "effect \<Rightarrow> bool" where
  "is_log e = (case e of Log _ _ \<Rightarrow> True | _ \<Rightarrow> False)"

definition is_read :: "effect \<Rightarrow> bool" where
  "is_read e = (case e of Read _ \<Rightarrow> True | _ \<Rightarrow> False)"

definition is_mutation :: "effect \<Rightarrow> bool" where
  "is_mutation e = (\<not> is_log e \<and> \<not> is_read e)"

fun effect_path :: "effect \<Rightarrow> path" where
  "effect_path (Read p) = p"
| "effect_path (Remove p) = p"
| "effect_path (CreateEmpty p) = p"
| "effect_path (Copy p q) = q"
| "effect_path (Makedirs p) = p"
| "effect_path (Rmtree p) = p"
| "effect_path (Log a p) = p"

section \<open>The calls on the file system\<close>

text \<open>The entry \<open>n\<close> of the directory at \<open>r\<close>; nothing when \<open>r\<close> is no directory.\<close>

definition child :: "node option \<Rightarrow> name \<Rightarrow> node option" where
  "child r n = (case r of Some (Dir es) \<Rightarrow> map_of es n | _ \<Rightarrow> None)"

definition put_child :: "name \<Rightarrow> node \<Rightarrow> node option \<Rightarrow> node option" where
  "put_child n v r = (case r of Some (Dir es) \<Rightarrow> Some (Dir (AList.update n v es)) | _ \<Rightarrow> r)"

definition del_child :: "name \<Rightarrow> node option \<Rightarrow> node option" where
  "del_child n r = (case r of Some (Dir es) \<Rightarrow> Some (Dir (AList.delete n es)) | _ \<Rightarrow> r)"

text \<open>
  \<open>within n f\<close> runs \<open>f\<close> on the entry \<open>n\<close> of the replica at hand and puts what \<open>f\<close>
  leaves there back under \<open>n\<close>: a callee working below \<open>os.path.join(rep_path, n)\<close>.
\<close>

definition within :: "name \<Rightarrow> (node option \<Rightarrow> outcome) \<Rightarrow> node option \<Rightarrow> outcome" where
  "within n f r =
     (case f (child r n) of
        (c, t, x) \<Rightarrow> ((case c of Some v \<Rightarrow> put_child n v r | None \<Rightarrow> r), t, x))"

text \<open>\<open>os.path.exists\<close>, \<open>isfile\<close>, \<open>isdir\<close> on the replica entry \<open>n\<close> under \<open>r\<close>.\<close>

definition rep_exists :: "node option \<Rightarrow> name \<Rightarrow> bool" where
  "rep_exists r n = (child r n \<noteq> None)"

definition rep_isfile :: "node option \<Rightarrow> name \<Rightarrow> bool" where
  "rep_isfile r n = (case child r n of Some (File _) \<Rightarrow> True | _ \<Rightarrow> False)"

definition rep_isdir :: "node option \<Rightarrow> name \<Rightarrow> bool" where
  "rep_isdir r n = (case child r n of Some (Dir _) \<Rightarrow> True | _ \<Rightarrow> False)"

text \<open>\<open>os.path.exists\<close> on the entry \<open>n\<close> of the source directory \<open>s\<close>.\<close>

definition src_exists :: "snode \<Rightarrow> name \<Rightarrow> bool" where
  "src_exists s n =
     (case s of
        SDir es \<Rightarrow> (case map_of es n of None \<Rightarrow> False | Some (SOther b) \<Rightarrow> b | Some _ \<Rightarrow> True)
      | _ \<Rightarrow> False)"

text \<open>The exception of listing \<open>r\<close>, or of writing below it, when \<open>r\<close> is missing or is a file.\<close>

definition not_dir_error :: "node option \<Rightarrow> error" where
  "not_dir_error r = (case r of None \<Rightarrow> FileNotFoundError | Some _ \<Rightarrow> NotADirectoryError)"

text \<open>\<open>os.remove(os.path.join(rp, n))\<close>: unlinks a file, raises on a directory.\<close>

definition os_remove :: "path \<Rightarrow> name \<Rightarrow> node option \<Rightarrow> outcome" where
  "os_remove rp n r =
     (case child r n of
        Some (File _) \<Rightarrow> (del_child n r, [Remove (rp @ [n])], None)
      | Some (Dir _) \<Rightarrow> (r, [], Some IsADirectoryError)
      | None \<Rightarrow> (r, [], Some FileNotFoundError))"

text \<open>\<open>open(os.path.join(rp, n), 'w').close()\<close>: creates or truncates a file.\<close>

definition open_w :: "path \<Rightarrow> name \<Rightarrow> node option \<Rightarrow> outcome" where
  "open_w rp n r =
     (case r of
        Some (Dir es) \<Rightarrow>
          (case map_of es n of
             Some (Dir _) \<Rightarrow> (r, [], Some IsADirectoryError)
           | _ \<Rightarrow> (put_child n (File []) r, [CreateEmpty (rp @ [n])], None))
      | _ \<Rightarrow> (r, [], Some (not_dir_error r)))"

text \<open>\<open>os.path.basename\<close>: the last component of a path, empty for the empty path.\<close>

definition basename :: "path \<Rightarrow> name" where
  "basename p = (case rev p of [] \<Rightarrow> [] | n # _ \<Rightarrow> n)"

text \<open>
  \<open>shutil.copy2(src_file, os.path.join(rp, n))\<close> with \<open>c\<close> the content of \<open>src_file\<close>.
  When the destination is a directory, \<open>copy2\<close> writes into it, under the base name of
  \<open>src_file\<close>.
\<close>

definition copy2 :: "path \<Rightarrow> bytes \<Rightarrow> path \<Rightarrow> name \<Rightarrow> node option \<Rightarrow> outcome" where
  "copy2 src_file c rp n r =
     (case r of
        Some (Dir es) \<Rightarrow>
          (case map_of es n of
             Some (Dir sub) \<Rightarrow>
               (case map_of sub (basename src_file) of
                  Some (Dir _) \<Rightarrow> (r, [], Some IsADirectoryError)
                | _ \<Rightarrow> (put_child n (Dir (AList.update (basename src_file) (File c) sub)) r,
                        [Copy src_file (rp @ [n, basename src_file])], None))
           | _ \<Rightarrow> (put_child n (File c) r, [Copy src_file (rp @ [n])], None))
      | _ \<Rightarrow> (r, [], Some (not_dir_error r)))"

text \<open>
  \<open>os.makedirs(os.path.join(rp, n))\<close>: creates the directory and, when \<open>rp\<close> itself is
  missing, \<open>rp\<close> as well.
\<close>

definition os_makedirs :: "path \<Rightarrow> name \<Rightarrow> node option \<Rightarrow> outcome" where
  "os_makedirs rp n r =
     (case r of
        None \<Rightarrow> (Some (Dir [(n, Dir [])]), [Makedirs (rp @ [n])], None)
      | Some (File _) \<Rightarrow> (r, [], Some NotADirectoryError)
      | Some (Dir es) \<Rightarrow>
          (case map_of es n of
             None \<Rightarrow> (put_child n (Dir []) r, [Makedirs (rp @ [n])], None)
           | Some _ \<Rightarrow> (r, [], Some FileExistsError)))"

text \<open>\<open>shutil.rmtree(os.path.join(rp, n))\<close>: removes a directory with all below it.\<close>

definition rmtree :: "path \<Rightarrow> name \<Rightarrow> node option \<Rightarrow> outcome" where
  "rmtree rp n r =
     (case child r n of
        Some (Dir _) \<Rightarrow> (del_child n r, [Rmtree (rp @ [n])], None)
      | Some (File _) \<Rightarrow> (r, [], Some NotADirectoryError)
      | None \<Rightarrow> (r, [], Some FileNotFoundError))"

section \<open>The program\<close>

text \<open>\<open>os.path.getsize\<close> of the node at a path.\<close>

definition getsize :: "platform \<Rightarrow> node option \<Rightarrow> error + nat" where
  "getsize P x =
     (case x of
        None \<Rightarrow> Inl FileNotFoundError
      | Some (File c) \<Rightarrow> Inr (length c)
      | Some (Dir es) \<Rightarrow> Inr (dir_size P es))"

definition calculate_hash :: "platform \<Rightarrow> path \<Rightarrow> node option \<Rightarrow> (error + 128 word) \<times> effect list" where
  "calculate_hash P file_path x =
     (case x of
        None \<Rightarrow> (Inl FileNotFoundError, [])
      | Some (Dir _) \<Rightarrow> (Inl IsADirectoryError, [])
      | Some (File c) \<Rightarrow> (Inr (md5 P c), [Read file_path]))"

text \<open>
  \<open>same_files\<close> on the nodes \<open>a\<close> at \<open>src_path\<close> and \<open>b\<close> at \<open>rep_path\<close>: the sizes first,
  then the digest of the left file, then that of the right one.
\<close>

definition same_files ::
  "platform \<Rightarrow> path \<Rightarrow> path \<Rightarrow> node option \<Rightarrow> node option \<Rightarrow> (error + bool) \<times> effect list" where
  "same_files P src_path rep_path a b =
     (case getsize P a of
        Inl e \<Rightarrow> (Inl e, [])
      | Inr m \<Rightarrow>
     (case getsize P b of
        Inl e \<Rightarrow> (Inl e, [])
      | Inr n \<Rightarrow>
     if m \<noteq> n then (Inr False, [])
     else
     (case calculate_hash P src_path a of
        (Inl e, t1) \<Rightarrow> (Inl e, t1)
      | (Inr h1, t1) \<Rightarrow>
     (case calculate_hash P rep_path b of
        (Inl e, t2) \<Rightarrow> (Inl e, t1 @ t2)
      | (Inr h2, t2) \<Rightarrow> (Inr (h1 = h2), t1 @ t2)))))"

text \<open>
  \<open>log\<close> prints the line and appends it to the log file: one \<open>Log\<close> effect. The log file
  lies outside the two trees and is not part of the state.
\<close>

definition log :: "string \<Rightarrow> path \<Rightarrow> node option \<Rightarrow> outcome" where
  "log action file_path r = (r, [Log action file_path], None)"

text \<open>
  \<open>synchronize_file\<close>, called for an entry \<open>file\<close> of the source directory that
  \<open>os.path.isfile\<close> accepts; \<open>c\<close> is its content and \<open>r\<close> the replica at \<open>rep_path\<close>.
\<close>

definition synchronize_file ::
  "platform \<Rightarrow> path \<Rightarrow> path \<Rightarrow> name \<Rightarrow> bytes \<Rightarrow> node option \<Rightarrow> outcome" where
  "synchronize_file P src_path rep_path file c r =
     (let src_file = src_path @ [file]; rep_file = rep_path @ [file] in
      if length c = 0 then
        seq (if rep_exists r file then os_remove rep_path file r else (r, [], None))
          (\<lambda>r1. seq (open_w rep_path file r1) (log ''Created empty file'' rep_file))
      else if \<not> rep_exists r file then
        seq (copy2 src_file c rep_path file r) (log ''Created'' rep_file)
      else
        (case same_files P src_file rep_file (Some (File c)) (child r file) of
           (Inl e, t) \<Rightarrow> (r, t, Some e)
         | (Inr True, t) \<Rightarrow> (r, t, None)
         | (Inr False, t) \<Rightarrow>
             seq (r, t, None)
               (\<lambda>r1. seq (copy2 src_file c rep_path file r1) (log ''Updated'' rep_file))))"

text \<open>
  \<open>src_to_rep\<close> lists the source node \<open>s\<close> at \<open>src_path\<close> (\<open>get_dir_content\<close>, that is
  \<open>os.listdir\<close>, which raises unless \<open>s\<close> is a directory) and runs its loop, \<open>src_loop\<close>,
  over the entries; \<open>synchronize_dir\<close> is called for an entry \<open>dir\<close> that
  \<open>os.path.isdir\<close> accepts, \<open>s\<close> being the source node there.
\<close>

function (sequential) src_to_rep :: "platform \<Rightarrow> path \<Rightarrow> path \<Rightarrow> snode \<Rightarrow> node option \<Rightarrow> outcome"
  and src_loop :: "platform \<Rightarrow> path \<Rightarrow> path \<Rightarrow> (name \<times> snode) list \<Rightarrow> node option \<Rightarrow> outcome"
  and synchronize_dir :: "platform \<Rightarrow> path \<Rightarrow> path \<Rightarrow> name \<Rightarrow> snode \<Rightarrow> node option \<Rightarrow> outcome"
where
  "src_to_rep P src_path rep_path (SDir src_lst) r = src_loop P src_path rep_path src_lst r"
| "src_to_rep P src_path rep_path (SFile c) r = (r, [], Some NotADirectoryError)"
| "src_to_rep P src_path rep_path (SOther b) r =
     (r, [], Some (if b then NotADirectoryError else FileNotFoundError))"
| "src_loop P src_path rep_path [] r = (r, [], None)"
| "src_loop P src_path rep_path ((item, e) # rest) r =
     seq (case e of
            SFile c \<Rightarrow> synchronize_file P src_path rep_path item c r
          | SDir sub \<Rightarrow> synchronize_dir P src_path rep_path item e r
          | SOther b \<Rightarrow> (r, [], None))
       (src_loop P src_path rep_path rest)"
| "synchronize_dir P src_path rep_path dir s r =
     (let src_dir = src_path @ [dir]; rep_dir = rep_path @ [dir] in
      seq (if \<not> rep_exists r dir
           then seq (os_makedirs rep_path dir r) (log ''Created directory'' rep_dir)
           else (r, [], None))
        (within dir (src_to_rep P src_dir rep_dir s)))"
  by pat_completeness auto
termination
  by (relation "measure (\<lambda>x. case x of
        Inl (P, sp, rp, s, r) \<Rightarrow> 2 * size s + 1
      | Inr (Inl (P, sp, rp, lst, r)) \<Rightarrow> 2 * size_list (size_prod (\<lambda>_. 0) size) lst
      | Inr (Inr (P, sp, rp, dir, s, r)) \<Rightarrow> 2 * size s + 2)") auto

text \<open>
  \<open>rep_to_src\<close> lists the replica directory and runs its loop, \<open>rep_loop\<close>, over the names
  listed at that moment; \<open>s\<close> is the source directory at \<open>src_path\<close>.
\<close>

fun rep_loop :: "path \<Rightarrow> path \<Rightarrow> snode \<Rightarrow> name list \<Rightarrow> node option \<Rightarrow> outcome" where
  "rep_loop src_path rep_path s [] r = (r, [], None)"
| "rep_loop src_path rep_path s (item # rest) r =
     seq (if \<not> src_exists s item then
            if rep_isfile r item then
              seq (os_remove rep_path item r) (log ''Deleted'' (rep_path @ [item]))
            else if rep_isdir r item then
              seq (rmtree rep_path item r) (log ''Deleted'' (rep_path @ [item]))
            else (r, [], None)
          else (r, [], None))
       (rep_loop src_path rep_path s rest)"

definition rep_to_src :: "path \<Rightarrow> path \<Rightarrow> snode \<Rightarrow> node option \<Rightarrow> outcome" where
  "rep_to_src src_path rep_path s r =
     (case r of
        Some (Dir rep_lst) \<Rightarrow> rep_loop src_path rep_path s (map fst rep_lst) r
      | _ \<Rightarrow> (r, [], Some (not_dir_error r)))"

text \<open>
  \<open>synchronize\<close> on the source root \<open>s\<close> and the replica root \<open>r\<close>, which is \<open>None\<close>
  when nothing lies at \<open>rep_path\<close>.
\<close>

definition synchronize :: "platform \<Rightarrow> path \<Rightarrow> path \<Rightarrow> snode \<Rightarrow> node option \<Rightarrow> outcome" where
  "synchronize P src_path rep_path s r =
     seq (src_to_rep P src_path rep_path s r) (rep_to_src src_path rep_path s)"

section \<open>Notions used to state the properties\<close>

text \<open>What lies at a relative path below a replica node, and below a source node.\<close>

fun lookup :: "node option \<Rightarrow> path \<Rightarrow> node option" where
  "lookup r [] = r"
| "lookup r (n # p) = lookup (child r n) p"

definition schild :: "snode option \<Rightarrow> name \<Rightarrow> snode option" where
  "schild s n = (case s of Some (SDir es) \<Rightarrow> map_of es n | _ \<Rightarrow> None)"

fun slookup :: "snode option \<Rightarrow> path \<Rightarrow> snode option" where
  "slookup s [] = s"
| "slookup s (n # p) = slookup (schild s n) p"

text \<open>
  What Pass 2 does for the replica entry \<open>n\<close> holding \<open>v\<close>, and the entries that survive
  a run of its loop over the names \<open>ns\<close>.
\<close>

definition prune_effects :: "path \<Rightarrow> snode \<Rightarrow> name \<Rightarrow> node option \<Rightarrow> effect list" where
  "prune_effects rp s n v =
     (if src_exists s n then []
      else case v of
             None \<Rightarrow> []
           | Some (File _) \<Rightarrow> [Remove (rp @ [n]), Log ''Deleted'' (rp @ [n])]
           | Some (Dir _) \<Rightarrow> [Rmtree (rp @ [n]), Log ''Deleted'' (rp @ [n])])"

definition kept :: "snode \<Rightarrow> name list \<Rightarrow> name \<times> node \<Rightarrow> bool" where
  "kept s ns x = (fst x \<notin> set ns \<or> src_exists s (fst x))"

text \<open>
  Conditions on the trees. \<open>sdistinct\<close>: no directory of the source lists a name twice.
  \<open>compat e r\<close>: the replica node \<open>r\<close> has no type conflict with the source node \<open>e\<close>,
  that is, where the source holds a regular file the replica holds a regular file or
  nothing, and where the source holds a directory the replica holds a directory or
  nothing, at every depth. \<open>no_empty\<close>: the source holds no zero-length regular file.
\<close>

fun sdistinct :: "snode \<Rightarrow> bool" where
  "sdistinct (SDir es) = (distinct (map fst es) \<and> list_all (\<lambda>(n, e). sdistinct e) es)"
| "sdistinct _ = True"

fun compat :: "snode \<Rightarrow> node option \<Rightarrow> bool" where
  "compat (SFile c) r = (case r of Some (Dir _) \<Rightarrow> False | _ \<Rightarrow> True)"
| "compat (SDir es) r =
     (case r of Some (File _) \<Rightarrow> False | _ \<Rightarrow> list_all (\<lambda>(n, e). compat e (child r n)) es)"
| "compat (SOther b) r = True"

fun no_empty :: "snode \<Rightarrow> bool" where
  "no_empty (SFile c) = (c \<noteq> [])"
| "no_empty (SDir es) = list_all (\<lambda>(n, e). no_empty e) es"
| "no_empty (SOther b) = True"

text \<open>
  \<open>mirrors P e r0 r\<close>: the replica node \<open>r\<close> mirrors the source node \<open>e\<close>, \<open>r0\<close> being
  what the replica held there before. A regular file is mirrored by a regular file with
  the same content, or by the file that was there before when that has the same length and
  the same digest; a directory by a directory that mirrors every file and directory listed
  in it.
\<close>

fun mirrors :: "platform \<Rightarrow> snode \<Rightarrow> node option \<Rightarrow> node option \<Rightarrow> bool" where
  "mirrors P (SFile c) r0 r =
     (case r of
        Some (File d) \<Rightarrow> d = c \<or> (r0 = r \<and> length d = length c \<and> md5 P d = md5 P c)
      | _ \<Rightarrow> False)"
| "mirrors P (SDir es) r0 r =
     (case r of
        Some (Dir qs) \<Rightarrow> list_all (\<lambda>(n, e). mirrors P e (child r0 n) (child r n)) es
      | _ \<Rightarrow> False)"
| "mirrors P (SOther b) r0 r = True"

text \<open>The trees of a worked example.\<close>

definition example_source :: "(name \<times> snode) list" where
  "example_source =
     [(''a.txt'', SFile [1]), (''d'', SDir [(''b.txt'', SFile [7, 7])]), (''link'', SOther False)]"

definition example_replica :: "(name \<times> node) list" where
  "example_replica =
     [(''a.txt'', File [2]), (''link'', File [3]), (''old_dir'', Dir [(''x'', File [4])])]"

text \<open>
  A stand-in for the two platform parameters, used where a property is run on concrete
  trees: a digest that tells short byte strings apart, and a file system that reports
  4096 bytes as the size of every directory, as ext4 does for a small directory.
\<close>

definition example_platform :: platform where
  "example_platform =
     \<lparr>md5 = (\<lambda>bs. foldr (\<lambda>b h. ucast b + 256 * h) bs 1), dir_size = (\<lambda>es. 4096)\<rparr>"

section \<open>Basic facts\<close>

lemma seq_ok [simp]: "seq (r, t, None) f = (case f r of (r2, t2, e2) \<Rightarrow> (r2, t @ t2, e2))"
  by (simp add: seq_def)


lemma seq_skip [simp]: "seq (r, [], None) f = f r"
  by (simp add: seq_def split: prod.splits)

lemma seq_assoc: "seq (seq a f) g = seq a (\<lambda>r. seq (f r) g)"
  by (auto simp: seq_def split: prod.splits option.splits)

lemma child_simps [simp]:
  "child None n = None"
  "child (Some (File c)) n = None"
  "child (Some (Dir es)) n = map_of es n"
  by (simp_all add: child_def)

lemma put_child_Dir [simp]: "put_child n v (Some (Dir es)) = Some (Dir (AList.update n v es))"
  by (simp add: put_child_def)

lemma del_child_Dir [simp]: "del_child n (Some (Dir es)) = Some (Dir (AList.delete n es))"
  by (simp add: del_child_def)

lemma rep_tests [simp]:
  "rep_exists (Some (Dir es)) n = (map_of es n \<noteq> None)"
  "rep_isfile (Some (Dir es)) n = (\<exists>c. map_of es n = Some (File c))"
  "rep_isdir (Some (Dir es)) n = (\<exists>sub. map_of es n = Some (Dir sub))"
  by (auto simp: rep_exists_def rep_isfile_def rep_isdir_def split: option.splits node.splits)

lemma basename_snoc [simp]: "basename (p @ [n]) = n"
  by (simp add: basename_def)

lemma update_fresh: "map_of al k = None \<Longrightarrow> AList.update k v al = al @ [(k, v)]"
  by (induction al) (auto split: if_splits)

lemma delete_absent: "map_of al k = None \<Longrightarrow> AList.delete k al = al"
  by (induction al) (auto split: if_splits)

text \<open>The loop of Pass 1 over a listing is the loop over its parts, one after the other.\<close>

lemma src_loop_Cons:
  "src_loop P sp rp (x # xs) r = seq (src_loop P sp rp [x] r) (src_loop P sp rp xs)"
  by (cases x) (simp add: seq_def split: prod.splits option.splits)

lemma src_loop_append:
  "src_loop P sp rp (xs @ ys) r = seq (src_loop P sp rp xs r) (src_loop P sp rp ys)"
proof (induction xs arbitrary: r)
  case Nil
  show ?case by simp
next
  case (Cons x xs)
  have "src_loop P sp rp (xs @ ys) = (\<lambda>r. seq (src_loop P sp rp xs r) (src_loop P sp rp ys))"
    by (rule ext) (rule Cons.IH)
  then have "src_loop P sp rp ((x # xs) @ ys) r =
      seq (src_loop P sp rp [x] r) (\<lambda>r. seq (src_loop P sp rp xs r) (src_loop P sp rp ys))"
    by (simp add: src_loop_Cons [of P sp rp x "xs @ ys"])
  also have "\<dots> = seq (seq (src_loop P sp rp [x] r) (src_loop P sp rp xs)) (src_loop P sp rp ys)"
    by (simp only: seq_assoc)
  also have "seq (src_loop P sp rp [x] r) (src_loop P sp rp xs) = src_loop P sp rp (x # xs) r"
    by (rule src_loop_Cons [symmetric])
  finally show ?case .
qed

lemma read_is_harmless: "is_read e \<Longrightarrow> \<not> is_log e \<and> \<not> is_mutation e"
  by (cases e) (simp_all add: is_read_def is_log_def is_mutation_def)

lemma same_files_files:
  "same_files P p q (Some (File a)) (Some (File b)) =
     (if length a \<noteq> length b then (Inr False, [])
      else (Inr (md5 P a = md5 P b), [Read p, Read q]))"
  by (simp add: same_files_def getsize_def calculate_hash_def)

lemma same_files_reads: "list_all is_read (snd (same_files P p q x y))"
  by (auto simp: same_files_def getsize_def calculate_hash_def is_read_def
      split: option.splits node.splits sum.splits prod.splits)

section \<open>The Change Detector\<close>

text \<open>
  C4. For two existing regular files, \<open>same_files\<close> answers false when the byte lengths
  differ, and then it has opened neither file (no \<open>Read\<close> effect); when the lengths are
  equal it reads the source file, then the replica file, and answers true exactly when the
  two 128-bit digests are equal. Whatever it is called on, its effects are reads only:
  it changes nothing and logs nothing.
\<close>

theorem same_files_regular:
  "same_files P p q (Some (File a)) (Some (File b)) =
     (if length a \<noteq> length b then (Inr False, [])
      else (Inr (md5 P a = md5 P b), [Read p, Read q]))
   \<and> list_all is_read (snd (same_files P p q x y))"
  by (simp add: same_files_files same_files_reads)

section \<open>Pass 1 on a single file\<close>

text \<open>
  C5. For a zero-length source file, where the replica directory exists and the replica
  entry of that name, if any, is a regular file: \<open>synchronize_file\<close> removes the
  existing replica file, creates an empty file and logs \<open>Created empty file\<close>, whatever
  the replica file held, an empty file included. Afterwards the replica holds a
  zero-length file under that name and exactly one event was logged.
\<close>

theorem empty_source_file:
  assumes "r = Some (Dir es)" and "\<not> rep_isdir r f"
  shows "synchronize_file P sp rp f [] r =
           (Some (Dir (AList.delete f es @ [(f, File [])])),
            (if rep_exists r f then [Remove (rp @ [f])] else [])
              @ [CreateEmpty (rp @ [f]), Log ''Created empty file'' (rp @ [f])],
            None)
         \<and> child (fst (synchronize_file P sp rp f [] r)) f = Some (File [])
         \<and> filter is_log (fst (snd (synchronize_file P sp rp f [] r))) =
             [Log ''Created empty file'' (rp @ [f])]"
proof -
  have gone: "map_of (AList.delete f es) f = None"
    by (simp add: delete_conv')
  have fresh: "AList.update f (File []) (AList.delete f es) = AList.delete f es @ [(f, File [])]"
    by (rule update_fresh [OF gone])
  have run: "synchronize_file P sp rp f [] r =
           (Some (Dir (AList.delete f es @ [(f, File [])])),
            (if rep_exists r f then [Remove (rp @ [f])] else [])
              @ [CreateEmpty (rp @ [f]), Log ''Created empty file'' (rp @ [f])],
            None)"
  proof (cases "map_of es f")
    case None
    then show ?thesis
      using assms(1) fresh delete_absent [of es f]
      by (simp add: synchronize_file_def open_w_def log_def)
  next
    case (Some v)
    with assms obtain c where "map_of es f = Some (File c)"
      by (cases v) auto
    then show ?thesis
      using assms(1) fresh gone
      by (simp add: synchronize_file_def os_remove_def open_w_def log_def)
  qed
  have "map_of (AList.update f (File []) (AList.delete f es)) f = Some (File [])"
    by (simp add: update_conv')
  then have "map_of (AList.delete f es @ [(f, File [])]) f = Some (File [])"
    by (simp only: fresh)
  then show ?thesis
    unfolding run by (simp add: is_log_def)
qed

theorem empty_source_file_witness:
  "\<not> rep_isdir (Some (Dir [(''a.txt'', File [])])) ''a.txt'' \<and>
   synchronize_file example_platform [''source''] [''replica''] ''a.txt'' []
       (Some (Dir [(''a.txt'', File [])])) =
     (Some (Dir [(''a.txt'', File [])]),
      [Remove [''replica'', ''a.txt''], CreateEmpty [''replica'', ''a.txt''],
       Log ''Created empty file'' [''replica'', ''a.txt'']],
      None)"
  using empty_source_file [where r = "Some (Dir [(''a.txt'', File [])])"
      and es = "[(''a.txt'', File [])]" and f = "''a.txt''" and P = example_platform
      and sp = "[''source'']" and rp = "[''replica'']"]
  by simp

text \<open>
  C6. For a non-empty source file whose replica entry is a regular file: when
  \<open>same_files\<close> reports a difference, \<open>synchronize_file\<close> overwrites the replica file
  with the source content and logs \<open>Updated\<close> once; otherwise it leaves the replica as it
  is and logs nothing. In both cases the only other effects are the reads of the
  comparison.
\<close>

theorem nonempty_source_file:
  assumes "c \<noteq> []" and "child r f = Some (File d)"
  shows "synchronize_file P sp rp f c r =
           (case same_files P (sp @ [f]) (rp @ [f]) (Some (File c)) (Some (File d)) of
              (Inr False, t) \<Rightarrow>
                (put_child f (File c) r,
                 t @ [Copy (sp @ [f]) (rp @ [f]), Log ''Updated'' (rp @ [f])], None)
            | (_, t) \<Rightarrow> (r, t, None))
         \<and> list_all is_read (snd (same_files P (sp @ [f]) (rp @ [f]) (Some (File c)) (Some (File d))))"
proof -
  from assms(2) obtain es where r: "r = Some (Dir es)" and es: "map_of es f = Some (File d)"
    by (cases r) (auto simp: child_def split: node.splits)
  have "synchronize_file P sp rp f c r =
           (case same_files P (sp @ [f]) (rp @ [f]) (Some (File c)) (Some (File d)) of
              (Inr False, t) \<Rightarrow>
                (put_child f (File c) r,
                 t @ [Copy (sp @ [f]) (rp @ [f]), Log ''Updated'' (rp @ [f])], None)
            | (_, t) \<Rightarrow> (r, t, None))"
    using assms(1) es unfolding r
    by (simp add: synchronize_file_def same_files_files copy2_def log_def Let_def
        split: bool.splits)
  then show ?thesis
    using same_files_reads by blast
qed

theorem nonempty_source_file_witness:
  "[1 :: 8 word] \<noteq> [] \<and>
   child (Some (Dir [(''f.txt'', File [2])])) ''f.txt'' = Some (File [2]) \<and>
   synchronize_file example_platform [''source''] [''replica''] ''f.txt'' [1]
       (Some (Dir [(''f.txt'', File [2])])) =
     (Some (Dir [(''f.txt'', File [1])]),
      [Read [''source'', ''f.txt''], Read [''replica'', ''f.txt''],
       Copy [''source'', ''f.txt''] [''replica'', ''f.txt''],
       Log ''Updated'' [''replica'', ''f.txt'']],
      None)"
  using nonempty_source_file [where c = "[1]" and r = "Some (Dir [(''f.txt'', File [2])])"
      and f = "''f.txt''" and d = "[2]" and P = example_platform
      and sp = "[''source'']" and rp = "[''replica'']"]
  by (simp add: same_files_files example_platform_def)

section \<open>Exceptions\<close>
















section \<open>Pass 2\<close>

text \<open>
  One step of the loop of Pass 2, and the loop in closed form: the entries whose names
  \<open>os.path.exists\<close> finds in the source stay, the others go, each with one removal and
  one log line.
\<close>

lemma delete_filter: "AList.delete n qs = filter (\<lambda>x. fst x \<noteq> n) qs"
  by (induction qs) auto

lemma filter_kept_one:
  "filter (kept s [n]) qs = (if src_exists s n then qs else AList.delete n qs)"
  by (induction qs) (auto simp: kept_def)

lemma filter_kept_Cons: "filter (kept s ns) (filter (kept s [n]) qs) = filter (kept s (n # ns)) qs"
  by (induction qs) (auto simp: kept_def)

lemma filter_kept_all: "filter (kept s (map fst qs)) qs = filter (\<lambda>(k, v). src_exists s k) qs"
  by (rule filter_cong [OF refl]) (auto simp: kept_def)

lemma map_of_filter_kept:
  "map_of (filter (kept s ns) qs) m = (if m \<notin> set ns \<or> src_exists s m then map_of qs m else None)"
  by (induction qs) (auto simp: kept_def)

lemma rep_loop_step:
  "rep_loop sp rp s (n # ns) (Some (Dir qs)) =
     seq (Some (Dir (filter (kept s [n]) qs)), prune_effects rp s n (map_of qs n), None)
       (rep_loop sp rp s ns)"
proof (cases "src_exists s n")
  case True
  then show ?thesis by (simp add: filter_kept_one prune_effects_def)
next
  case False
  show ?thesis
  proof (cases "map_of qs n")
    case None
    with False show ?thesis
      by (simp add: filter_kept_one delete_absent prune_effects_def)
  next
    case (Some v)
    with False show ?thesis
      by (cases v)
         (simp_all add: filter_kept_one prune_effects_def os_remove_def rmtree_def log_def)
  qed
qed

lemma rep_loop_closed:
  "distinct ns \<Longrightarrow>
   rep_loop sp rp s ns (Some (Dir qs)) =
     (Some (Dir (filter (kept s ns) qs)),
      concat (map (\<lambda>n. prune_effects rp s n (map_of qs n)) ns), None)"
proof (induction ns arbitrary: qs)
  case Nil
  show ?case by (simp add: kept_def)
next
  case (Cons n ns)
  define qs1 where "qs1 = filter (kept s [n]) qs"
  have d: "distinct ns" and n: "n \<notin> set ns" using Cons.prems by auto
  have same: "map (\<lambda>m. prune_effects rp s m (map_of qs1 m)) ns =
              map (\<lambda>m. prune_effects rp s m (map_of qs m)) ns"
    using n unfolding qs1_def by (intro map_cong refl) (auto simp: map_of_filter_kept)
  have ff: "filter (kept s ns) qs1 = filter (kept s (n # ns)) qs"
    unfolding qs1_def by (rule filter_kept_Cons)
  have "rep_loop sp rp s (n # ns) (Some (Dir qs)) =
        seq (Some (Dir qs1), prune_effects rp s n (map_of qs n), None) (rep_loop sp rp s ns)"
    unfolding qs1_def by (rule rep_loop_step)
  also have "\<dots> = (Some (Dir (filter (kept s ns) qs1)),
      prune_effects rp s n (map_of qs n) @ concat (map (\<lambda>m. prune_effects rp s m (map_of qs1 m)) ns), None)"
    by (simp add: Cons.IH [OF d])
  finally show ?case
    by (simp add: same ff)
qed

lemma rep_to_src_closed:
  assumes "distinct (map fst qs)"
  shows "rep_to_src sp rp s (Some (Dir qs)) =
     (Some (Dir (filter (\<lambda>(k, v). src_exists s k) qs)),
      concat (map (\<lambda>(k, v). prune_effects rp s k (Some v)) qs), None)"
proof -
  have "map_of qs k = Some v" if "(k, v) \<in> set qs" for k v
    using that assms by simp
  then have m: "map (\<lambda>n. prune_effects rp s n (map_of qs n)) (map fst qs) =
             map (\<lambda>(k, v). prune_effects rp s k (Some v)) qs"
    by (auto simp: comp_def intro!: map_cong)
  show ?thesis
    unfolding rep_to_src_def
    by (simp add: rep_loop_closed [OF assms] filter_kept_all m del: map_map)
qed

lemma rep_loop_state:
  "\<exists>t. rep_loop sp rp s ns (Some (Dir qs)) = (Some (Dir (filter (kept s ns) qs)), t, None)"
proof (induction ns arbitrary: qs)
  case Nil
  show ?case by (simp add: kept_def)
next
  case (Cons n ns)
  define qs1 where "qs1 = filter (kept s [n]) qs"
  have ff: "filter (kept s ns) qs1 = filter (kept s (n # ns)) qs"
    unfolding qs1_def by (rule filter_kept_Cons)
  from Cons.IH [of qs1] obtain t where
    t: "rep_loop sp rp s ns (Some (Dir qs1)) = (Some (Dir (filter (kept s ns) qs1)), t, None)" ..
  have "rep_loop sp rp s (n # ns) (Some (Dir qs)) =
        seq (Some (Dir qs1), prune_effects rp s n (map_of qs n), None) (rep_loop sp rp s ns)"
    unfolding qs1_def by (rule rep_loop_step)
  also have "\<dots> = (Some (Dir (filter (kept s (n # ns)) qs)), prune_effects rp s n (map_of qs n) @ t, None)"
    by (simp add: t ff)
  finally show ?case by blast
qed

lemma lookup_None [simp]: "lookup None p = None"
  by (induction p) auto

lemma prune_effects_under:
  "filter (\<lambda>e. prefix (rp @ [n]) (effect_path e)) (prune_effects rp s k v) =
     (if k = n then prune_effects rp s k v else [])"
  by (auto simp: prune_effects_def split: option.splits node.splits)

lemma prune_effects_elsewhere:
  "n \<notin> fst ` set qs \<Longrightarrow>
   filter (\<lambda>e. prefix (rp @ [n]) (effect_path e))
     (concat (map (\<lambda>(k, v). prune_effects rp s k (Some v)) qs)) = []"
  by (induction qs) (auto simp: prune_effects_under)

lemma prune_effects_here:
  "distinct (map fst qs) \<Longrightarrow> map_of qs n = Some v \<Longrightarrow>
   filter (\<lambda>e. prefix (rp @ [n]) (effect_path e))
     (concat (map (\<lambda>(k, v). prune_effects rp s k (Some v)) qs)) = prune_effects rp s n (Some v)"
proof (induction qs)
  case Nil
  then show ?case by simp
next
  case (Cons x qs)
  obtain k w where x: "x = (k, w)" by (cases x)
  show ?case
  proof (cases "k = n")
    case True
    with Cons.prems x have "n \<notin> fst ` set qs" and "w = v" by auto
    with True x show ?thesis
      by (simp add: prune_effects_under prune_effects_elsewhere)
  next
    case False
    with Cons.prems x have "distinct (map fst qs)" and "map_of qs n = Some v" by auto
    with False x Cons.IH show ?thesis
      by (simp add: prune_effects_under)
  qed
qed

text \<open>
  C7. When the replica directory holds a directory \<open>n\<close> for which \<open>os.path.exists\<close> finds
  nothing in the source, Pass 2 removes the whole subtree (nothing is left at or below
  \<open>n\<close>), and its effects at or below \<open>n\<close> are one \<open>rmtree\<close> and one log line
  \<open>Deleted\<close>, both for \<open>n\<close> itself: no event names a descendant. The program logs the
  removal of a directory under the same label \<open>Deleted\<close> as that of a file.
\<close>

theorem stale_directory_one_event:
  assumes "distinct (map fst qs)" and "map_of qs n = Some (Dir sub)" and "\<not> src_exists s n"
  shows "\<exists>r' t. rep_to_src sp rp s (Some (Dir qs)) = (r', t, None)
           \<and> (\<forall>p. lookup r' (n # p) = None)
           \<and> filter (\<lambda>e. prefix (rp @ [n]) (effect_path e)) t =
               [Rmtree (rp @ [n]), Log ''Deleted'' (rp @ [n])]"
proof -
  let ?r = "Some (Dir (filter (\<lambda>(k, v). src_exists s k) qs))"
  let ?t = "concat (map (\<lambda>(k, v). prune_effects rp s k (Some v)) qs)"
  have run: "rep_to_src sp rp s (Some (Dir qs)) = (?r, ?t, None)"
    by (rule rep_to_src_closed [OF assms(1)])
  have "map_of (filter (\<lambda>(k, v). src_exists s k) qs) n = None"
    using assms(3) by (induction qs) auto
  then have gone: "\<forall>p. lookup ?r (n # p) = None"
    by simp
  have "filter (\<lambda>e. prefix (rp @ [n]) (effect_path e)) ?t = prune_effects rp s n (Some (Dir sub))"
    by (rule prune_effects_here [OF assms(1,2)])
  then have "filter (\<lambda>e. prefix (rp @ [n]) (effect_path e)) ?t =
      [Rmtree (rp @ [n]), Log ''Deleted'' (rp @ [n])]"
    using assms(3) by (simp add: prune_effects_def)
  with run gone show ?thesis by blast
qed

theorem stale_directory_one_event_witness:
  "distinct (map fst [(''old_dir'', Dir [(''a.txt'', File [1])]), (''keep.txt'', File [2])]) \<and>
   map_of [(''old_dir'', Dir [(''a.txt'', File [1])]), (''keep.txt'', File [2])] ''old_dir'' =
     Some (Dir [(''a.txt'', File [1])]) \<and>
   \<not> src_exists (SDir [(''keep.txt'', SFile [2])]) ''old_dir'' \<and>
   (\<exists>r' t. rep_to_src [''source''] [''replica''] (SDir [(''keep.txt'', SFile [2])])
              (Some (Dir [(''old_dir'', Dir [(''a.txt'', File [1])]), (''keep.txt'', File [2])])) =
            (r', t, None)
          \<and> (\<forall>p. lookup r' (''old_dir'' # p) = None)
          \<and> filter (\<lambda>e. prefix ([''replica''] @ [''old_dir'']) (effect_path e)) t =
              [Rmtree ([''replica''] @ [''old_dir'']), Log ''Deleted'' ([''replica''] @ [''old_dir''])])"
proof -
  have h1: "distinct (map fst [(''old_dir'', Dir [(''a.txt'', File [1])]), (''keep.txt'', File [2])])"
    by simp
  have h2: "map_of [(''old_dir'', Dir [(''a.txt'', File [1])]), (''keep.txt'', File [2])] ''old_dir'' =
     Some (Dir [(''a.txt'', File [1])])"
    by simp
  have h3: "\<not> src_exists (SDir [(''keep.txt'', SFile [2])]) ''old_dir''"
    by (simp add: src_exists_def)
  show ?thesis
    using stale_directory_one_event [OF h1 h2 h3, of "[''source'']" "[''replica'']"] h1 h2 h3
    by blast
qed

text \<open>
  C10. Pass 2 asks \<open>os.path.exists\<close> for the name in the source directory and nothing
  else: a replica file or directory stays exactly when \<open>os.path.exists\<close> finds its name in
  the source, whatever the types on the two sides. So a replica directory named as a source
  file, or a replica file named as a source directory, is never removed. A source entry
  that \<open>os.path.exists\<close> does not find (a dangling symbolic link) counts as absent:
  the replica entry of that name is removed although the source directory lists the name.
\<close>

theorem rep_to_src_by_exists:
  "\<exists>t. rep_to_src sp rp s (Some (Dir qs)) =
     (Some (Dir (filter (\<lambda>(k, v). src_exists s k) qs)), t, None)"
  using rep_loop_state [of sp rp s "map fst qs" qs]
  by (simp add: rep_to_src_def filter_kept_all)

theorem rep_to_src_dangling_counterexample:
  "schild (Some (SDir [(''x'', SOther False)])) ''x'' = Some (SOther False) \<and>
   rep_to_src [''source''] [''replica''] (SDir [(''x'', SOther False)])
       (Some (Dir [(''x'', File [1])])) =
     (Some (Dir []), [Remove [''replica'', ''x''], Log ''Deleted'' [''replica'', ''x'']], None)"
  by (simp add: schild_def rep_to_src_def src_exists_def os_remove_def log_def)

text \<open>
  C2. Pass 2 does not descend: \<open>rep_to_src\<close> looks at the entries of the replica root
  only. With an empty directory \<open>d\<close> in the source and \<open>d/x.txt\<close> in the replica, a full
  \<open>synchronize\<close> leaves \<open>d/x.txt\<close> in place, with no effect and no log line, although the
  source has nothing at that path.
\<close>

theorem nested_stale_entry_survives:
  "slookup (Some (SDir [(''d'', SDir [])])) [''d'', ''x.txt''] = None \<and>
   synchronize P [''source''] [''replica''] (SDir [(''d'', SDir [])])
       (Some (Dir [(''d'', Dir [(''x.txt'', File [1])])])) =
     (Some (Dir [(''d'', Dir [(''x.txt'', File [1])])]), [], None) \<and>
   lookup (Some (Dir [(''d'', Dir [(''x.txt'', File [1])])])) [''d'', ''x.txt''] = Some (File [1])"
  by (simp add: schild_def synchronize_def rep_to_src_def src_exists_def within_def)

section \<open>Pass 1 on entries that are neither file nor directory\<close>

text \<open>
  C9. Pass 1 skips a source entry for which neither \<open>os.path.isfile\<close> nor
  \<open>os.path.isdir\<close> holds: processing it leaves the replica as it is, with no effect and
  no log event, and the whole pass runs as if the entry were not listed.
\<close>

theorem src_to_rep_skips_other:
  "src_loop P sp rp [(n, SOther b)] r = (r, [], None) \<and>
   src_to_rep P sp rp (SDir (pre @ (n, SOther b) # post)) r =
     src_to_rep P sp rp (SDir (pre @ post)) r"
proof -
  have one: "src_loop P sp rp ((n, SOther b) # post) r' = src_loop P sp rp post r'" for r'
    by simp
  have "src_loop P sp rp ((n, SOther b) # post) = src_loop P sp rp post"
    by (rule ext) (rule one)
  then have "src_loop P sp rp (pre @ (n, SOther b) # post) r = src_loop P sp rp (pre @ post) r"
    by (simp only: src_loop_append)
  then show ?thesis by simp
qed

section \<open>A whole run\<close>

text \<open>
  Without type conflicts, Pass 1 succeeds on every entry and leaves a replica that mirrors
  it, touching no other name; Pass 2 then keeps every mirrored entry.
\<close>

lemma synchronize_file_ok:
  assumes "compat (SFile c) (map_of qs f)"
  shows "\<exists>qs' t. synchronize_file P sp rp f c (Some (Dir qs)) = (Some (Dir qs'), t, None)
           \<and> mirrors P (SFile c) (map_of qs f) (map_of qs' f)
           \<and> (\<forall>m. m \<noteq> f \<longrightarrow> map_of qs' m = map_of qs m)"
proof (cases "map_of qs f")
  case None
  show ?thesis
  proof (cases "c = []")
    case True
    with None show ?thesis
      by (simp add: synchronize_file_def open_w_def log_def update_conv')
  next
    case False
    with None show ?thesis
      by (simp add: synchronize_file_def copy2_def log_def update_conv')
  qed
next
  case (Some v)
  with assms obtain d where d: "map_of qs f = Some (File d)"
    by (cases v) auto
  show ?thesis
  proof (cases "c = []")
    case True
    with d show ?thesis
      by (simp add: synchronize_file_def os_remove_def open_w_def log_def update_conv' delete_conv')
  next
    case False
    show ?thesis
    proof (cases "length c = length d \<and> md5 P c = md5 P d")
      case True
      with False have "d \<noteq> []" by auto
      with True False d show ?thesis
        by (simp add: synchronize_file_def same_files_files Let_def)
    next
      case False
      with \<open>c \<noteq> []\<close> d show ?thesis
        by (auto simp: synchronize_file_def same_files_files copy2_def log_def update_conv' Let_def)
    qed
  qed
qed

lemma synchronize_file_quiet:
  assumes "c \<noteq> []" and "mirrors P (SFile c) (map_of qs f) (map_of qs f)"
  shows "\<exists>t. synchronize_file P sp rp f c (Some (Dir qs)) = (Some (Dir qs), t, None)
           \<and> list_all is_read t"
proof -
  from assms(2) obtain d where d: "map_of qs f = Some (File d)"
    and eq: "length d = length c" "md5 P d = md5 P c"
    by (auto split: option.splits node.splits)
  from assms(1) eq(1) have "d \<noteq> []" by auto
  then show ?thesis
    using assms(1) d eq
    by (simp add: synchronize_file_def same_files_files Let_def is_read_def)
qed


lemma src_loop_single:
  "src_loop P sp rp [(n, e)] r =
     (case e of
        SFile c \<Rightarrow> synchronize_file P sp rp n c r
      | SDir sub \<Rightarrow> synchronize_dir P sp rp n e r
      | SOther b \<Rightarrow> (r, [], None))"
  by (simp add: seq_def split: prod.splits option.splits snode.splits)

lemma synchronize_dir_absent:
  "map_of qs n = None \<Longrightarrow>
   synchronize_dir P sp rp n s (Some (Dir qs)) =
     (case src_to_rep P (sp @ [n]) (rp @ [n]) s (Some (Dir [])) of
        (c, t, x) \<Rightarrow>
          ((case c of
              Some v \<Rightarrow> Some (Dir (AList.update n v (AList.update n (Dir []) qs)))
            | None \<Rightarrow> Some (Dir (AList.update n (Dir []) qs))),
           [Makedirs (rp @ [n]), Log ''Created directory'' (rp @ [n])] @ t, x))"
  by (simp add: os_makedirs_def log_def within_def Let_def update_conv'
      split: prod.splits option.splits)

lemma synchronize_dir_present:
  "map_of qs n = Some v \<Longrightarrow>
   synchronize_dir P sp rp n s (Some (Dir qs)) =
     (case src_to_rep P (sp @ [n]) (rp @ [n]) s (Some v) of
        (c, t, x) \<Rightarrow>
          ((case c of Some v' \<Rightarrow> Some (Dir (AList.update n v' qs)) | None \<Rightarrow> Some (Dir qs)),
           t, x))"
  by (simp add: within_def Let_def split: prod.splits option.splits)

lemma pass1_loop:
  assumes "\<And>n e qs. (n, e) \<in> set es \<Longrightarrow> compat e (map_of qs n) \<Longrightarrow>
             \<exists>qs' t. src_loop P sp rp [(n, e)] (Some (Dir qs)) = (Some (Dir qs'), t, None)
               \<and> mirrors P e (map_of qs n) (map_of qs' n)
               \<and> (\<forall>m. m \<noteq> n \<longrightarrow> map_of qs' m = map_of qs m)"
    and "distinct (map fst es)"
    and "\<forall>(n, e) \<in> set es. compat e (map_of qs n)"
  shows "\<exists>qs' t. src_loop P sp rp es (Some (Dir qs)) = (Some (Dir qs'), t, None)
           \<and> (\<forall>(n, e) \<in> set es. mirrors P e (map_of qs n) (map_of qs' n))
           \<and> (\<forall>m. m \<notin> fst ` set es \<longrightarrow> map_of qs' m = map_of qs m)"
  using assms
proof (induction es arbitrary: qs)
  case Nil
  show ?case by simp
next
  case (Cons x es)
  obtain n e where x: "x = (n, e)" by (cases x)
  have fresh: "n \<notin> fst ` set es" and dist: "distinct (map fst es)"
    using Cons.prems(2) x by auto
  have "compat e (map_of qs n)"
    using Cons.prems(3) x by auto
  with Cons.prems(1) [of n e qs] x obtain qs1 t1 where
    run1: "src_loop P sp rp [(n, e)] (Some (Dir qs)) = (Some (Dir qs1), t1, None)"
    and mir1: "mirrors P e (map_of qs n) (map_of qs1 n)"
    and frame1: "\<And>m. m \<noteq> n \<Longrightarrow> map_of qs1 m = map_of qs m"
    by auto
  have same: "map_of qs1 m = map_of qs m" if "(m, e') \<in> set es" for m e'
    using that fresh frame1 [of m] by force
  have compat1: "\<forall>(m, e') \<in> set es. compat e' (map_of qs1 m)"
    using Cons.prems(3) same by auto
  have step: "\<And>n e qs. (n, e) \<in> set es \<Longrightarrow> compat e (map_of qs n) \<Longrightarrow>
             \<exists>qs' t. src_loop P sp rp [(n, e)] (Some (Dir qs)) = (Some (Dir qs'), t, None)
               \<and> mirrors P e (map_of qs n) (map_of qs' n)
               \<and> (\<forall>m. m \<noteq> n \<longrightarrow> map_of qs' m = map_of qs m)"
    using Cons.prems(1) by simp
  from Cons.IH [OF step dist compat1] obtain qs2 t2 where
    run2: "src_loop P sp rp es (Some (Dir qs1)) = (Some (Dir qs2), t2, None)"
    and mir2: "\<forall>(m, e') \<in> set es. mirrors P e' (map_of qs1 m) (map_of qs2 m)"
    and frame2: "\<forall>m. m \<notin> fst ` set es \<longrightarrow> map_of qs2 m = map_of qs1 m"
    by blast
  have "src_loop P sp rp (x # es) (Some (Dir qs)) =
        seq (src_loop P sp rp [x] (Some (Dir qs))) (src_loop P sp rp es)"
    by (rule src_loop_Cons)
  also have "\<dots> = (Some (Dir qs2), t1 @ t2, None)"
    unfolding x by (simp only: run1 seq_ok run2 prod.case)
  finally have run: "src_loop P sp rp (x # es) (Some (Dir qs)) = (Some (Dir qs2), t1 @ t2, None)" .
  have here: "mirrors P e (map_of qs n) (map_of qs2 n)"
    using mir1 frame2 fresh by simp
  have there: "mirrors P e' (map_of qs m) (map_of qs2 m)" if "(m, e') \<in> set es" for m e'
    using mir2 that same [OF that] by fastforce
  have frame: "map_of qs2 m = map_of qs m" if "m \<notin> fst ` set (x # es)" for m
    using that frame1 [of m] frame2 x by simp
  show ?case
    using run here there frame x by auto
qed


lemma compat_fresh_dir:
  "compat (SDir sub) None \<Longrightarrow> (m, e) \<in> set sub \<Longrightarrow> compat e (map_of [] m)"
  by (auto simp: list_all_iff)

lemma pass1_entry:
  "sdistinct e \<Longrightarrow> compat e (map_of qs n) \<Longrightarrow>
   \<exists>qs' t. src_loop P sp rp [(n, e)] (Some (Dir qs)) = (Some (Dir qs'), t, None)
     \<and> mirrors P e (map_of qs n) (map_of qs' n)
     \<and> (\<forall>m. m \<noteq> n \<longrightarrow> map_of qs' m = map_of qs m)"
proof (induction e arbitrary: sp rp n qs)
  case (SFile c)
  from SFile.prems(2) show ?case
    unfolding src_loop_single snode.case by (rule synchronize_file_ok)
next
  case (SOther b)
  show ?case
    unfolding src_loop_single snode.case by simp
next
  case (SDir sub)
  have dist: "distinct (map fst sub)" and sd: "\<And>m e. (m, e) \<in> set sub \<Longrightarrow> sdistinct e"
    using SDir.prems(1) by (auto simp: list_all_iff)
  have step: "\<exists>cs' t. src_loop P sp' rp' [(m, e)] (Some (Dir cs)) = (Some (Dir cs'), t, None)
               \<and> mirrors P e (map_of cs m) (map_of cs' m)
               \<and> (\<forall>k. k \<noteq> m \<longrightarrow> map_of cs' k = map_of cs k)"
    if "(m, e) \<in> set sub" and "compat e (map_of cs m)" for m e cs sp' rp'
    using SDir.IH [of "(m, e)" e cs m sp' rp'] that sd [OF that(1)] by simp
  let ?sp = "sp @ [n]" and ?rp = "rp @ [n]"
  show ?case
  proof (cases "map_of qs n")
    case None
    have c0: "\<forall>(m, e) \<in> set sub. compat e (map_of [] m)"
      using SDir.prems(2) None by (auto simp: list_all_iff)
    from pass1_loop [of sub P ?sp ?rp "[]", OF step dist c0]
    obtain cs' t where run: "src_loop P ?sp ?rp sub (Some (Dir [])) = (Some (Dir cs'), t, None)"
      and mir: "\<forall>(m, e) \<in> set sub. mirrors P e (map_of [] m) (map_of cs' m)"
      by blast
    have "src_loop P sp rp [(n, SDir sub)] (Some (Dir qs)) =
          (Some (Dir (AList.update n (Dir cs') (AList.update n (Dir []) qs))),
           [Makedirs (rp @ [n]), Log ''Created directory'' (rp @ [n])] @ t, None)"
      by (simp only: src_loop_single snode.case synchronize_dir_absent [OF None]
          src_to_rep.simps run prod.case option.case)
    moreover have "mirrors P (SDir sub) (map_of qs n)
        (map_of (AList.update n (Dir cs') (AList.update n (Dir []) qs)) n)"
      using mir None by (auto simp: update_conv' list_all_iff)
    moreover have "\<forall>m. m \<noteq> n \<longrightarrow>
        map_of (AList.update n (Dir cs') (AList.update n (Dir []) qs)) m = map_of qs m"
      by (simp add: update_conv')
    ultimately show ?thesis by blast
  next
    case (Some v)
    with SDir.prems(2) obtain cs where v: "v = Dir cs"
      by (cases v) auto
    have c0: "\<forall>(m, e) \<in> set sub. compat e (map_of cs m)"
      using SDir.prems(2) Some v by (auto simp: list_all_iff)
    from pass1_loop [of sub P ?sp ?rp cs, OF step dist c0]
    obtain cs' t where run: "src_loop P ?sp ?rp sub (Some (Dir cs)) = (Some (Dir cs'), t, None)"
      and mir: "\<forall>(m, e) \<in> set sub. mirrors P e (map_of cs m) (map_of cs' m)"
      by blast
    have "src_loop P sp rp [(n, SDir sub)] (Some (Dir qs)) =
          (Some (Dir (AList.update n (Dir cs') qs)), t, None)"
      by (simp only: src_loop_single snode.case synchronize_dir_present [OF Some] v
          src_to_rep.simps run prod.case option.case)
    moreover have "mirrors P (SDir sub) (map_of qs n) (map_of (AList.update n (Dir cs') qs) n)"
      using mir Some v by (auto simp: update_conv' list_all_iff)
    moreover have "\<forall>m. m \<noteq> n \<longrightarrow> map_of (AList.update n (Dir cs') qs) m = map_of qs m"
      by (simp add: update_conv')
    ultimately show ?thesis by blast
  qed
qed


lemma slookup_None [simp]: "slookup None p = None"
  by (induction p) (auto simp: schild_def)

lemma slookup_step:
  "slookup (Some e) (n # p) = Some x \<Longrightarrow>
   \<exists>es e'. e = SDir es \<and> map_of es n = Some e' \<and> slookup (Some e') p = Some x"
  by (cases e; cases "schild (Some e) n") (auto simp: schild_def)

lemma mirrors_entry:
  "mirrors P (SDir es) r0 r \<Longrightarrow> map_of es n = Some e \<Longrightarrow> mirrors P e (child r0 n) (child r n)"
  by (auto simp: list_all_iff split: option.splits node.splits dest!: map_of_SomeD)

lemma mirrors_lookup_file:
  "mirrors P e r0 r \<Longrightarrow> slookup (Some e) p = Some (SFile c) \<Longrightarrow>
   lookup r p = Some (File c) \<or>
   (lookup r p = lookup r0 p \<and>
    (\<exists>d. lookup r p = Some (File d) \<and> length d = length c \<and> md5 P d = md5 P c))"
proof (induction p arbitrary: e r0 r)
  case Nil
  then show ?case by (auto split: option.splits node.splits)
next
  case (Cons n p)
  from slookup_step [OF Cons.prems(2)] obtain es e' where
    e: "e = SDir es" "map_of es n = Some e'" "slookup (Some e') p = Some (SFile c)"
    by blast
  have "mirrors P e' (child r0 n) (child r n)"
    using Cons.prems(1) e(1,2) by (simp only: mirrors_entry)
  from Cons.IH [OF this e(3)] show ?case by simp
qed

lemma mirrors_lookup_dir:
  "mirrors P e r0 r \<Longrightarrow> slookup (Some e) p = Some (SDir ds) \<Longrightarrow> \<exists>cs. lookup r p = Some (Dir cs)"
proof (induction p arbitrary: e r0 r)
  case Nil
  then show ?case by (auto split: option.splits node.splits)
next
  case (Cons n p)
  from slookup_step [OF Cons.prems(2)] obtain es e' where
    e: "e = SDir es" "map_of es n = Some e'" "slookup (Some e') p = Some (SDir ds)"
    by blast
  have "mirrors P e' (child r0 n) (child r n)"
    using Cons.prems(1) e(1,2) by (simp only: mirrors_entry)
  from Cons.IH [OF this e(3)] show ?case by simp
qed

lemma map_of_filter_exists:
  "map_of (filter (\<lambda>(k, v). src_exists s k) qs) n = (if src_exists s n then map_of qs n else None)"
  by (induction qs) auto

lemma rep_to_src_state:
  "\<exists>t. rep_to_src sp rp s (Some (Dir qs)) =
     (Some (Dir (filter (\<lambda>(k, v). src_exists s k) qs)), t, None)"
  using rep_loop_state [of sp rp s "map fst qs" qs]
  by (simp add: rep_to_src_def filter_kept_all)

lemma mirrors_survives:
  assumes "distinct (map fst es)" and "(n, e) \<in> set es"
    and "mirrors P e r0 (map_of qs n)"
  shows "mirrors P e r0 (map_of (filter (\<lambda>(k, v). src_exists (SDir es) k) qs) n)"
proof (cases e)
  case (SOther b)
  then show ?thesis by simp
next
  case (SFile c)
  with assms(1,2) have "src_exists (SDir es) n" by (simp add: src_exists_def)
  with assms(3) show ?thesis by (simp add: map_of_filter_exists)
next
  case (SDir sub)
  with assms(1,2) have "src_exists (SDir es) n" by (simp add: src_exists_def)
  with assms(3) show ?thesis by (simp add: map_of_filter_exists)
qed

lemma synchronize_run:
  assumes "sdistinct (SDir es)" and "compat (SDir es) (Some (Dir qs))"
  shows "\<exists>q1 t. synchronize P sp rp (SDir es) (Some (Dir qs)) = (Some (Dir q1), t, None)
           \<and> (\<forall>(n, e) \<in> set es. mirrors P e (map_of qs n) (map_of q1 n))
           \<and> (\<forall>(k, v) \<in> set q1. src_exists (SDir es) k)"
proof -
  have dist: "distinct (map fst es)" and sd: "\<And>n e. (n, e) \<in> set es \<Longrightarrow> sdistinct e"
    using assms(1) by (auto simp: list_all_iff)
  have c0: "\<forall>(n, e) \<in> set es. compat e (map_of qs n)"
    using assms(2) by (auto simp: list_all_iff)
  have step: "\<exists>qs' t. src_loop P sp rp [(n, e)] (Some (Dir qs)) = (Some (Dir qs'), t, None)
               \<and> mirrors P e (map_of qs n) (map_of qs' n)
               \<and> (\<forall>m. m \<noteq> n \<longrightarrow> map_of qs' m = map_of qs m)"
    if "(n, e) \<in> set es" and "compat e (map_of qs n)" for n e qs
    using pass1_entry [OF sd [OF that(1)] that(2)] .
  from pass1_loop [of es P sp rp qs, OF step dist c0]
  obtain qs' t1 where run1: "src_loop P sp rp es (Some (Dir qs)) = (Some (Dir qs'), t1, None)"
    and mir: "\<forall>(n, e) \<in> set es. mirrors P e (map_of qs n) (map_of qs' n)"
    by blast
  let ?q1 = "filter (\<lambda>(k, v). src_exists (SDir es) k) qs'"
  from rep_to_src_state [of sp rp "SDir es" qs'] obtain t2 where
    run2: "rep_to_src sp rp (SDir es) (Some (Dir qs')) = (Some (Dir ?q1), t2, None)" ..
  have "synchronize P sp rp (SDir es) (Some (Dir qs)) = (Some (Dir ?q1), t1 @ t2, None)"
    by (simp add: synchronize_def run1 run2)
  moreover have "\<forall>(n, e) \<in> set es. mirrors P e (map_of qs n) (map_of ?q1 n)"
    using mir mirrors_survives [OF dist] by blast
  moreover have "\<forall>(k, v) \<in> set ?q1. src_exists (SDir es) k"
    by auto
  ultimately show ?thesis by blast
qed

text \<open>
  On trees without type conflict a run does mirror the source. Let no directory of the
  source list a name twice, let the replica root be a directory and let there be no type
  conflict between the two trees. Then \<open>synchronize\<close> returns without exception, and
  afterwards: at every path where the source holds a regular file the replica holds a
  regular file with the same content, or still the file it held before, which then has the
  same length and the same digest; and at every path where the source holds a directory
  the replica holds a directory.
\<close>

lemma conflict_free_run_mirrors:
  assumes "sdistinct (SDir es)" and "compat (SDir es) (Some (Dir qs))"
  shows "\<exists>r' t. synchronize P sp rp (SDir es) (Some (Dir qs)) = (r', t, None)
           \<and> (\<forall>p c. slookup (Some (SDir es)) p = Some (SFile c) \<longrightarrow>
                  lookup r' p = Some (File c) \<or>
                  (lookup r' p = lookup (Some (Dir qs)) p \<and>
                   (\<exists>d. lookup r' p = Some (File d) \<and> length d = length c
                      \<and> md5 P d = md5 P c)))
           \<and> (\<forall>p ds. slookup (Some (SDir es)) p = Some (SDir ds) \<longrightarrow>
                  (\<exists>cs. lookup r' p = Some (Dir cs)))"
proof -
  from synchronize_run [OF assms, of P sp rp] obtain q1 t where
    run: "synchronize P sp rp (SDir es) (Some (Dir qs)) = (Some (Dir q1), t, None)"
    and mir: "\<forall>(n, e) \<in> set es. mirrors P e (map_of qs n) (map_of q1 n)"
    by blast
  have m: "mirrors P (SDir es) (Some (Dir qs)) (Some (Dir q1))"
    using mir by (auto simp: list_all_iff)
  have files: "\<forall>p c. slookup (Some (SDir es)) p = Some (SFile c) \<longrightarrow>
                  lookup (Some (Dir q1)) p = Some (File c) \<or>
                  (lookup (Some (Dir q1)) p = lookup (Some (Dir qs)) p \<and>
                   (\<exists>d. lookup (Some (Dir q1)) p = Some (File d) \<and> length d = length c
                      \<and> md5 P d = md5 P c))"
    using mirrors_lookup_file [OF m] by blast
  have dirs: "\<forall>p ds. slookup (Some (SDir es)) p = Some (SDir ds) \<longrightarrow>
                  (\<exists>cs. lookup (Some (Dir q1)) p = Some (Dir cs))"
    using mirrors_lookup_dir [OF m] by blast
  from run files dirs show ?thesis by blast
qed

text \<open>
  C1. A run does not always make the replica match the source. \<open>synchronize_dir\<close> creates
  the replica directory only when \<open>os.path.exists\<close> finds nothing under its name, so a
  regular file of that name passes for the directory: with an empty directory \<open>d\<close> in the
  source and a regular file \<open>d\<close> in the replica, \<open>synchronize\<close> returns without exception
  and without any effect, and the replica still holds a regular file at \<open>d\<close>, where the
  source holds a directory.
\<close>

theorem type_conflict_keeps_file:
  "slookup (Some (SDir [(''d'', SDir [])])) [''d''] = Some (SDir []) \<and>
   synchronize example_platform [''source''] [''replica''] (SDir [(''d'', SDir [])])
       (Some (Dir [(''d'', File [1])])) =
     (Some (Dir [(''d'', File [1])]), [], None) \<and>
   lookup (Some (Dir [(''d'', File [1])])) [''d''] = Some (File [1])"
  by (simp add: schild_def synchronize_def rep_to_src_def src_exists_def within_def)

text \<open>A replica that mirrors the source is left alone by Pass 1, up to reads.\<close>

lemma mirrors_self: "mirrors P e r0 r \<Longrightarrow> mirrors P e r r"
proof (induction e arbitrary: r0 r)
  case (SFile c)
  then show ?case by (auto split: option.splits node.splits)
next
  case (SOther b)
  show ?case by simp
next
  case (SDir sub)
  from SDir.prems obtain cs where r: "r = Some (Dir cs)"
    and all: "\<And>m e. (m, e) \<in> set sub \<Longrightarrow> mirrors P e (child r0 m) (map_of cs m)"
    by (auto simp: list_all_iff split: option.splits node.splits)
  have "mirrors P e (map_of cs m) (map_of cs m)" if "(m, e) \<in> set sub" for m e
    using SDir.IH [of "(m, e)" e "child r0 m" "map_of cs m"] that all [OF that] by simp
  then show ?case
    unfolding r by (auto simp: list_all_iff)
qed

lemma quiet_loop:
  assumes "\<And>n e. (n, e) \<in> set es \<Longrightarrow>
             \<exists>t. src_loop P sp rp [(n, e)] (Some (Dir qs)) = (Some (Dir qs), t, None)
               \<and> list_all is_read t"
  shows "\<exists>t. src_loop P sp rp es (Some (Dir qs)) = (Some (Dir qs), t, None) \<and> list_all is_read t"
  using assms
proof (induction es)
  case Nil
  show ?case by simp
next
  case (Cons x es)
  obtain n e where x: "x = (n, e)" by (cases x)
  from Cons.prems [of n e] x obtain t1 where
    run1: "src_loop P sp rp [x] (Some (Dir qs)) = (Some (Dir qs), t1, None)"
    and rd1: "list_all is_read t1"
    by auto
  from Cons.IH Cons.prems obtain t2 where
    run2: "src_loop P sp rp es (Some (Dir qs)) = (Some (Dir qs), t2, None)"
    and rd2: "list_all is_read t2"
    by auto
  have "src_loop P sp rp (x # es) (Some (Dir qs)) =
        seq (src_loop P sp rp [x] (Some (Dir qs))) (src_loop P sp rp es)"
    by (rule src_loop_Cons)
  also have "\<dots> = (Some (Dir qs), t1 @ t2, None)"
    by (simp only: run1 seq_ok run2 prod.case)
  finally show ?case
    using rd1 rd2 by simp
qed

lemma quiet_entry:
  "no_empty e \<Longrightarrow> mirrors P e (map_of qs n) (map_of qs n) \<Longrightarrow>
   \<exists>t. src_loop P sp rp [(n, e)] (Some (Dir qs)) = (Some (Dir qs), t, None) \<and> list_all is_read t"
proof (induction e arbitrary: sp rp n qs)
  case (SFile c)
  then have "c \<noteq> []" by simp
  from this SFile.prems(2) show ?case
    unfolding src_loop_single snode.case by (rule synchronize_file_quiet)
next
  case (SOther b)
  show ?case
    unfolding src_loop_single snode.case by simp
next
  case (SDir sub)
  from SDir.prems(2) obtain cs where here: "map_of qs n = Some (Dir cs)"
    and all: "\<And>m e. (m, e) \<in> set sub \<Longrightarrow> mirrors P e (map_of cs m) (map_of cs m)"
    by (auto simp: list_all_iff split: option.splits node.splits)
  have ne: "\<And>m e. (m, e) \<in> set sub \<Longrightarrow> no_empty e"
    using SDir.prems(1) by (auto simp: list_all_iff)
  have step: "\<exists>t. src_loop P (sp @ [n]) (rp @ [n]) [(m, e)] (Some (Dir cs)) = (Some (Dir cs), t, None)
               \<and> list_all is_read t"
    if "(m, e) \<in> set sub" for m e
    using SDir.IH [of "(m, e)" e cs m "sp @ [n]" "rp @ [n]"] that ne [OF that] all [OF that]
    by simp
  from quiet_loop [of sub P "sp @ [n]" "rp @ [n]" cs, OF step]
  obtain t where run: "src_loop P (sp @ [n]) (rp @ [n]) sub (Some (Dir cs)) = (Some (Dir cs), t, None)"
    and rd: "list_all is_read t"
    by blast
  have same: "AList.update n (Dir cs) qs = qs"
    by (rule update_triv [OF here])
  have "src_loop P sp rp [(n, SDir sub)] (Some (Dir qs)) = (Some (Dir qs), t, None)"
    by (simp only: src_loop_single snode.case synchronize_dir_present [OF here]
        src_to_rep.simps run prod.case option.case same)
  with rd show ?case by blast
qed

lemma rep_loop_quiet:
  "\<forall>n \<in> set ns. src_exists s n \<Longrightarrow> rep_loop sp rp s ns r = (r, [], None)"
proof (induction ns arbitrary: r)
  case Nil
  show ?case by simp
next
  case (Cons n ns)
  have "rep_loop sp rp s ns r' = (r', [], None)" for r'
    using Cons.IH [of r'] Cons.prems by simp
  then have "rep_loop sp rp s ns = (\<lambda>r. (r, [], None))"
    by (intro ext)
  with Cons.prems show ?case by simp
qed

text \<open>
  C3, as amended. Let the source hold no zero-length regular file and no directory that
  lists a name twice, let the replica root be a directory and let there be no type conflict
  between the two trees. Then a first \<open>synchronize\<close> returns without exception, and a
  second one, run on the replica that the first one left, returns without exception,
  leaves the replica as it is, and has no effects other than the reads of \<open>same_files\<close>:
  no log line and no change.
\<close>

theorem second_run_quiet:
  assumes "sdistinct (SDir es)" and "compat (SDir es) (Some (Dir qs))" and "no_empty (SDir es)"
  shows "\<exists>r1 t1 t2. synchronize P sp rp (SDir es) (Some (Dir qs)) = (r1, t1, None)
           \<and> synchronize P sp rp (SDir es) r1 = (r1, t2, None)
           \<and> list_all is_read t2"
proof -
  from synchronize_run [OF assms(1,2), of P sp rp] obtain q1 t1 where
    run: "synchronize P sp rp (SDir es) (Some (Dir qs)) = (Some (Dir q1), t1, None)"
    and mir: "\<forall>(n, e) \<in> set es. mirrors P e (map_of qs n) (map_of q1 n)"
    and ex: "\<forall>(k, v) \<in> set q1. src_exists (SDir es) k"
    by blast
  have ne: "\<And>n e. (n, e) \<in> set es \<Longrightarrow> no_empty e"
    using assms(3) by (auto simp: list_all_iff)
  have step: "\<exists>t. src_loop P sp rp [(n, e)] (Some (Dir q1)) = (Some (Dir q1), t, None)
               \<and> list_all is_read t"
    if "(n, e) \<in> set es" for n e
  proof -
    from mir that have "mirrors P e (map_of qs n) (map_of q1 n)" by auto
    then have "mirrors P e (map_of q1 n) (map_of q1 n)" by (rule mirrors_self)
    with ne [OF that] show ?thesis by (rule quiet_entry)
  qed
  from quiet_loop [of es P sp rp q1, OF step] obtain t2 where
    pass1: "src_loop P sp rp es (Some (Dir q1)) = (Some (Dir q1), t2, None)"
    and rd: "list_all is_read t2"
    by blast
  have "\<forall>n \<in> set (map fst q1). src_exists (SDir es) n"
    using ex by auto
  then have pass2: "rep_to_src sp rp (SDir es) (Some (Dir q1)) = (Some (Dir q1), [], None)"
    by (simp add: rep_to_src_def rep_loop_quiet)
  have "synchronize P sp rp (SDir es) (Some (Dir q1)) = (Some (Dir q1), t2, None)"
    by (simp add: synchronize_def pass1 pass2)
  with run rd show ?thesis by blast
qed

theorem second_run_quiet_witness:
  "sdistinct (SDir example_source) \<and> compat (SDir example_source) (Some (Dir example_replica)) \<and>
   no_empty (SDir example_source) \<and>
   (\<exists>r1 t1 t2. synchronize example_platform [''source''] [''replica''] (SDir example_source)
                  (Some (Dir example_replica)) = (r1, t1, None)
           \<and> synchronize example_platform [''source''] [''replica''] (SDir example_source) r1 =
               (r1, t2, None)
           \<and> list_all is_read t2)"
proof -
  have h1: "sdistinct (SDir example_source)"
    by (simp add: example_source_def)
  have h2: "compat (SDir example_source) (Some (Dir example_replica))"
    by (simp add: example_source_def example_replica_def)
  have h3: "no_empty (SDir example_source)"
    by (simp add: example_source_def)
  show ?thesis
    using second_run_quiet [OF h1 h2 h3, of example_platform "[''source'']" "[''replica'']"] h1 h2 h3
    by blast
qed

text \<open>
  The claim as the specification states it fails on a zero-length source file: the first
  run creates the empty replica file, and the second run, on the replica so obtained,
  removes it, creates it again and logs \<open>Created empty file\<close>.
\<close>

theorem second_run_empty_file_counterexample:
  "synchronize example_platform [''source''] [''replica''] (SDir [(''e.txt'', SFile [])])
       (Some (Dir [])) =
     (Some (Dir [(''e.txt'', File [])]),
      [CreateEmpty [''replica'', ''e.txt''], Log ''Created empty file'' [''replica'', ''e.txt'']],
      None) \<and>
   synchronize example_platform [''source''] [''replica''] (SDir [(''e.txt'', SFile [])])
       (Some (Dir [(''e.txt'', File [])])) =
     (Some (Dir [(''e.txt'', File [])]),
      [Remove [''replica'', ''e.txt''], CreateEmpty [''replica'', ''e.txt''],
       Log ''Created empty file'' [''replica'', ''e.txt'']],
      None)"
  by code_simp

end
